theory Spec2Isabelle
  imports Complex_Main "HOL-Library.Sublist"
begin

section \<open>Shared robot model\<close>

text \<open>
  The controllers read and write joint and actuator objects that live in the robot state.
  Only the fields the two \<open>update()\<close> functions touch are kept. C++ \<open>double\<close> values are
  modelled as exact reals (no rounding, no NaN), \<open>int\<close> counters as unbounded integers.
  An identifier may not end in an underscore here, so a C++ member \<^verbatim>\<open>x_\<close> is written
  \<open>x'\<close>; the actuator's \<^verbatim>\<open>state_.position_\<close> is \<open>act_position'\<close>, apart from the joint's
  \<^verbatim>\<open>position_\<close>.
\<close>

record JointState =
  position' :: real
  velocity' :: real
  calibrated' :: bool
  commanded_effort' :: real

record ActuatorState =
  zero_offset' :: real
  act_position' :: real

section \<open>GripperCalibrationController\<close>

text \<open>
  \<^verbatim>\<open>GripperCalibrationController::update()\<close> is \<open>update_calibration\<close> below; the
  name \<open>update\<close> is shared with the wrench controller, so each carries a suffix.
\<close>

datatype cal_state = INITIALIZED | BEGINNING | STARTING | CLOSING | CALIBRATED

text \<open>
  The controller together with the part of the world its \<open>update()\<close> reaches through
  pointers. \<open>joint'\<close> and the entries of \<open>other_joints'\<close> are handles into the joint store
  \<open>joints\<close>, so a dependent joint that is the same object as the primary joint is the same
  store cell. Times are \<open>ros::Time\<close> values in nanoseconds; \<open>ros::Duration(0.5)\<close> is
  500000000 ns. \<open>vc_command\<close> is the setpoint of the inner velocity controller \<^verbatim>\<open>vc_\<close> and
  \<open>vc_updates\<close> counts the calls of \<^verbatim>\<open>vc_.update()\<close>. \<open>published\<close> logs the robot time of
  every \<open>unlockAndPublish()\<close>, most recent first; \<open>trylock_free\<close> is what
  \<^verbatim>\<open>pub_calibrated_->trylock()\<close> answers this tick.
\<close>

text \<open>
  \<open>update()\<close> asserts that the joint and actuator pointers are set; here a handle always
  names a cell of the store.
\<close>

record cal_system =
  state' :: cal_state
  count' :: int
  stop_count' :: int
  last_publish_time' :: int
  search_velocity' :: real
  joint' :: nat
  other_joints' :: "nat list"
  pub_calibrated' :: bool
  vc_command :: real
  vc_updates :: nat
  joints :: "nat \<Rightarrow> JointState"
  actuator' :: ActuatorState
  robot_time :: int
  trylock_free :: bool
  published :: "int list"

definition set_calibrated :: "bool \<Rightarrow> nat \<Rightarrow> (nat \<Rightarrow> JointState) \<Rightarrow> (nat \<Rightarrow> JointState)" where
  "set_calibrated b j js = js(j := (js j)\<lparr>calibrated' := b\<rparr>)"

text \<open>
  The loop over \<^verbatim>\<open>other_joints_\<close> in the \<^verbatim>\<open>CLOSING\<close> case is the \<open>fold\<close> in
  \<open>closing_finish\<close>; \<open>closing_count\<close> is the stall counter in front of it.
  \<^verbatim>\<open>++count_ > 500\<close> increments before it compares. The \<^verbatim>\<open>INITIALIZED\<close> case returns
  before the trailing call of \<^verbatim>\<open>vc_.update()\<close>; every other case reaches it.
\<close>

text \<open>The trailing \<^verbatim>\<open>if (state_ != CALIBRATED) vc_.update();\<close> of \<open>update()\<close>.\<close>

definition vc_step :: "cal_system \<Rightarrow> cal_system" where
  "vc_step s = (if state' s \<noteq> CALIBRATED then s\<lparr>vc_updates := Suc (vc_updates s)\<rparr> else s)"

definition closing_count :: "cal_system \<Rightarrow> cal_system" where
  "closing_count s =
     (if \<bar>velocity' (joints s (joint' s))\<bar> < 0.0001
      then s\<lparr>stop_count' := stop_count' s + 1\<rparr>
      else s\<lparr>stop_count' := 0\<rparr>)"

definition closing_finish :: "cal_system \<Rightarrow> cal_system" where
  "closing_finish s =
     (if stop_count' s > 100
      then s\<lparr>actuator' := (actuator' s)\<lparr>zero_offset' := act_position' (actuator' s)\<rparr>,
             state' := CALIBRATED,
             joints := fold (set_calibrated True) (other_joints' s)
                         (set_calibrated True (joint' s) (joints s)),
             vc_command := 0\<rparr>
      else s)"

definition publish_step :: "cal_system \<Rightarrow> cal_system" where
  "publish_step s =
     (if pub_calibrated' s then
        (if last_publish_time' s + 500000000 < robot_time s then
           (if trylock_free s
            then s\<lparr>last_publish_time' := robot_time s, published := robot_time s # published s\<rparr>
            else s)
         else s)
      else s)"

definition update_calibration :: "cal_system \<Rightarrow> cal_system" where
  "update_calibration s =
     (case state' s of
        INITIALIZED \<Rightarrow> s\<lparr>state' := BEGINNING\<rparr>
      | BEGINNING \<Rightarrow>
          vc_step (s\<lparr>count' := 0, stop_count' := 0,
                     joints := set_calibrated False (joint' s) (joints s),
                     actuator' := (actuator' s)\<lparr>zero_offset' := 0\<rparr>,
                     vc_command := search_velocity' s,
                     state' := STARTING\<rparr>)
      | STARTING \<Rightarrow>
          vc_step (if count' s + 1 > 500
                   then s\<lparr>count' := 0, stop_count' := 0, state' := CLOSING\<rparr>
                   else s\<lparr>count' := count' s + 1\<rparr>)
      | CLOSING \<Rightarrow> vc_step (closing_finish (closing_count s))
      | CALIBRATED \<Rightarrow> vc_step (publish_step s))"

text \<open>
  What the environment does between two ticks: the sensors refresh the primary joint's
  velocity and the actuator's raw position, the clock advances, and the publisher's lock is
  free or taken.
\<close>

record tick_env =
  velocity :: real
  raw_position :: real
  now :: int
  lock_free :: bool

definition sense :: "tick_env \<Rightarrow> cal_system \<Rightarrow> cal_system" where
  "sense e s =
     s\<lparr>joints := (joints s)(joint' s := (joints s (joint' s))\<lparr>velocity' := velocity e\<rparr>),
       actuator' := (actuator' s)\<lparr>act_position' := raw_position e\<rparr>,
       robot_time := now e,
       trylock_free := lock_free e\<rparr>"

definition tick :: "tick_env \<Rightarrow> cal_system \<Rightarrow> cal_system" where
  "tick e s = update_calibration (sense e s)"

fun run :: "tick_env list \<Rightarrow> cal_system \<Rightarrow> cal_system" where
  "run [] s = s"
| "run (e # es) s = run es (tick e s)"

text \<open>The states seen at the start and after every tick of a run.\<close>

fun trace :: "tick_env list \<Rightarrow> cal_system \<Rightarrow> cal_state list" where
  "trace [] s = [state' s]"
| "trace (e # es) s = state' s # trace es (tick e s)"

subsection \<open>Vocabulary of the calibration properties\<close>

text \<open>The successor of a state in the order of the enum.\<close>

fun next_state :: "cal_state \<Rightarrow> cal_state" where
  "next_state INITIALIZED = BEGINNING"
| "next_state BEGINNING = STARTING"
| "next_state STARTING = CLOSING"
| "next_state CLOSING = CALIBRATED"
| "next_state CALIBRATED = CALIBRATED"

fun order_from :: "cal_state \<Rightarrow> cal_state list" where
  "order_from INITIALIZED = [INITIALIZED, BEGINNING, STARTING, CLOSING, CALIBRATED]"
| "order_from BEGINNING = [BEGINNING, STARTING, CLOSING, CALIBRATED]"
| "order_from STARTING = [STARTING, CLOSING, CALIBRATED]"
| "order_from CLOSING = [CLOSING, CALIBRATED]"
| "order_from CALIBRATED = [CALIBRATED]"

text \<open>A tick qualifies for the stall count when the velocity magnitude is below 0.0001.\<close>

definition stalled :: "tick_env \<Rightarrow> bool" where
  "stalled e = (\<bar>velocity e\<bar> < 0.0001)"

text \<open>
  \<open>has_stall_run n es\<close>: somewhere in \<open>es\<close> there are \<open>n\<close> consecutive qualifying ticks.
  \<open>trailing_stall es\<close> is the length of the run of qualifying ticks that ends \<open>es\<close>.
\<close>

fun has_stall_run :: "nat \<Rightarrow> tick_env list \<Rightarrow> bool" where
  "has_stall_run n [] = (n = 0)"
| "has_stall_run n (e # es) =
     ((n \<le> length (e # es) \<and> list_all stalled (take n (e # es))) \<or> has_stall_run n es)"

definition trailing_stall :: "tick_env list \<Rightarrow> nat" where
  "trailing_stall es = length (takeWhile stalled (rev es))"

text \<open>
  A publish log (most recent first) is \<open>spaced\<close> when each entry is more than 0.5 s after
  the one before it.
\<close>

fun spaced :: "int list \<Rightarrow> bool" where
  "spaced (t1 # t2 # ts) = (t2 + 500000000 < t1 \<and> spaced (t2 # ts))"
| "spaced ts = True"

definition pub_inv :: "cal_system \<Rightarrow> bool" where
  "pub_inv s = (spaced (published s) \<and>
                (published s \<noteq> [] \<longrightarrow> hd (published s) = last_publish_time' s))"

subsection \<open>Example systems\<close>

definition joint_at :: "real \<Rightarrow> bool \<Rightarrow> JointState" where
  "joint_at p c = \<lparr>position' = p, velocity' = 0, calibrated' = c, commanded_effort' = 0\<rparr>"

text \<open>The controller as its constructor leaves it, with two dependent joints.\<close>

definition init_system :: cal_system where
  "init_system =
     \<lparr>state' = INITIALIZED, count' = 0, stop_count' = 0, last_publish_time' = 0,
      search_velocity' = 1, joint' = 0, other_joints' = [1, 2], pub_calibrated' = True,
      vc_command = 0, vc_updates = 0, joints = (\<lambda>_. joint_at 0 False),
      actuator' = \<lparr>zero_offset' = 0, act_position' = 0\<rparr>,
      robot_time = 0, trylock_free = True, published = []\<rparr>"

definition stall_env :: tick_env where
  "stall_env = \<lparr>velocity = 0, raw_position = 0.25, now = 0, lock_free = True\<rparr>"

definition move_env :: tick_env where
  "move_env = \<lparr>velocity = 1, raw_position = 0.125, now = 0, lock_free = True\<rparr>"

definition at_time :: "int \<Rightarrow> bool \<Rightarrow> tick_env" where
  "at_time t l = \<lparr>velocity = 0, raw_position = 0.25, now = t, lock_free = l\<rparr>"

definition closing_system :: cal_system where
  "closing_system = init_system\<lparr>state' := CLOSING\<rparr>"

definition calibrated_system :: cal_system where
  "calibrated_system = init_system\<lparr>state' := CALIBRATED\<rparr>"

definition beginning_system :: cal_system where
  "beginning_system =
     init_system\<lparr>state' := BEGINNING, joints := (\<lambda>_. joint_at 0 True)\<rparr>"


section \<open>CartesianWrenchController\<close>

record JointConstraint =
  joint :: int
  soft_limit :: real
  hard_limit :: real
  stiffness :: real

text \<open>
  A \<open>KDL::Wrench\<close>: force then torque; \<open>wrench_at w j\<close> is \<^verbatim>\<open>wrench_desi_(j)\<close> for
  \<open>j\<close> in 0..5, the only indices \<open>update()\<close> reads.
\<close>

record Wrench =
  force_x :: real
  force_y :: real
  force_z :: real
  torque_x :: real
  torque_y :: real
  torque_z :: real

definition wrench_at :: "Wrench \<Rightarrow> nat \<Rightarrow> real" where
  "wrench_at w j = [force_x w, force_y w, force_z w, torque_x w, torque_y w, torque_z w] ! j"

text \<open>A \<open>KDL::Jacobian\<close>, read as \<^verbatim>\<open>jacobian_(j,i)\<close>: row \<open>j\<close> of 6, column \<open>i\<close>.\<close>

type_synonym Jacobian = "nat \<Rightarrow> nat \<Rightarrow> real"

text \<open>
  Modelled from the spec: the chain collaborator (\<open>pr2_mechanism_model::Chain\<close> and the
  \<open>KDL::Chain\<close> built from it) is outside this repository's sources. The chain is the ordered sequence of its
  joints; it reports calibrated when no joint in its span is uncalibrated, hands out the
  joint positions in order, and has as many joints as the position and effort vectors
  have entries.
\<close>

type_synonym Chain = "JointState list"

definition allCalibrated :: "Chain \<Rightarrow> bool" where
  "allCalibrated chain = list_all calibrated' chain"

definition getPositions :: "Chain \<Rightarrow> real list" where
  "getPositions chain = map position' chain"

definition getNrOfJoints :: "Chain \<Rightarrow> nat" where
  "getNrOfJoints chain = length chain"

record wrench_controller =
  constraint' :: JointConstraint
  wrench_desi' :: Wrench
  jnt_pos' :: "real list"
  jnt_eff' :: "real list"
  jacobian' :: Jacobian

text \<open>
  The cast \<^verbatim>\<open>(int)(kdl_chain_.getNrOfJoints())\<close> of an \<open>unsigned int\<close>, wrap-around written
  out for 32 bits.
\<close>

definition int_of_unsigned :: "nat \<Rightarrow> int" where
  "int_of_unsigned n =
     (let m = int n mod 2 ^ 32 in if m < 2 ^ 31 then m else m - 2 ^ 32)"

text \<open>The inner loop over the 6 wrench components, for one joint \<open>i\<close>.\<close>

definition joint_effort :: "Jacobian \<Rightarrow> Wrench \<Rightarrow> nat \<Rightarrow> real" where
  "joint_effort jac w i = fold (\<lambda>j acc. acc + jac j i * wrench_at w j) [0..<6] 0"

text \<open>
  \<^verbatim>\<open>jnt_pos_\<close> and \<^verbatim>\<open>jnt_eff_\<close> are \<open>KDL::JntArray\<close>s. Reading or writing an entry
  outside the bounds of the array is undefined behaviour in C++; here it is the fault
  \<open>OutOfBounds\<close>, and every access of the two arrays by index goes through \<open>vec_get\<close> or
  \<open>vec_set\<close>. The index is an integer, so that a negative \<^verbatim>\<open>constraint_.joint\<close> is out of
  bounds as well.
\<close>

datatype fault = OutOfBounds

definition vec_get :: "real list \<Rightarrow> int \<Rightarrow> fault + real" where
  "vec_get v k = (if 0 \<le> k \<and> k < int (length v) then Inr (v ! nat k) else Inl OutOfBounds)"

definition vec_set :: "real list \<Rightarrow> int \<Rightarrow> real \<Rightarrow> fault + real list" where
  "vec_set v k x =
     (if 0 \<le> k \<and> k < int (length v) then Inr (v[nat k := x]) else Inl OutOfBounds)"

text \<open>
  \<open>update()\<close> from \<^verbatim>\<open>chain_.getPositions\<close> to the end of the projection loop. The
  Jacobian solver \<^verbatim>\<open>jnt_to_jac_solver_->JntToJac\<close> belongs to KDL and is the parameter
  \<open>JntToJac\<close>. The outer loop writes \<^verbatim>\<open>jnt_eff_(i)\<close> in place, for every \<open>i\<close> below the
  chain's number of joints, and stops at the first fault.
\<close>

definition project ::
  "(real list \<Rightarrow> Jacobian) \<Rightarrow> Chain \<Rightarrow> wrench_controller \<Rightarrow> fault + wrench_controller" where
  "project JntToJac chain s =
     (let s1 = s\<lparr>jnt_pos' := getPositions chain\<rparr>;
          s2 = s1\<lparr>jacobian' := JntToJac (jnt_pos' s1)\<rparr>
      in case fold (\<lambda>i r. case r of
                             Inl f \<Rightarrow> Inl f
                           | Inr eff \<Rightarrow>
                               vec_set eff (int i) (joint_effort (jacobian' s2) (wrench_desi' s2) i))
                [0..<getNrOfJoints chain] (Inr (jnt_eff' s2)) of
           Inl f \<Rightarrow> Inl f
         | Inr eff \<Rightarrow> Inr (s2\<lparr>jnt_eff' := eff\<rparr>))"

text \<open>
  The body of the block under \<^verbatim>\<open>// apply joint constraint\<close>, inside its range check: it
  reads \<^verbatim>\<open>jnt_pos_(constraint_.joint)\<close> and, past a limit, writes (past the soft limit only:
  reads and writes) \<^verbatim>\<open>jnt_eff_(constraint_.joint)\<close>. The function \<^verbatim>\<open>sign\<close> comes from KDL's
  utilities and is the parameter \<open>sign\<close>.
\<close>

definition spring :: "(real \<Rightarrow> real) \<Rightarrow> wrench_controller \<Rightarrow> fault + wrench_controller" where
  "spring sign s =
     (let c = constraint' s;
          sgn = sign (hard_limit c - soft_limit c)
      in case vec_get (jnt_pos' s) (joint c) of
           Inl f \<Rightarrow> Inl f
         | Inr p \<Rightarrow>
             if sgn * (hard_limit c - p) < 0
             then (case vec_set (jnt_eff' s) (joint c) (stiffness c * (soft_limit c - p)) of
                     Inl f \<Rightarrow> Inl f
                   | Inr eff \<Rightarrow> Inr (s\<lparr>jnt_eff' := eff\<rparr>))
             else if sgn * (soft_limit c - p) < 0
             then (case vec_get (jnt_eff' s) (joint c) of
                     Inl f \<Rightarrow> Inl f
                   | Inr e \<Rightarrow>
                       (case vec_set (jnt_eff' s) (joint c)
                               (e + stiffness c * (soft_limit c - p)) of
                          Inl f \<Rightarrow> Inl f
                        | Inr eff \<Rightarrow> Inr (s\<lparr>jnt_eff' := eff\<rparr>)))
             else Inr s)"

text \<open>The block under \<^verbatim>\<open>// apply joint constraint\<close> with its range check.\<close>

definition constrain ::
  "(real \<Rightarrow> real) \<Rightarrow> Chain \<Rightarrow> wrench_controller \<Rightarrow> fault + wrench_controller" where
  "constrain sign chain s =
     (if joint (constraint' s) \<ge> 0
         \<and> joint (constraint' s) < int_of_unsigned (getNrOfJoints chain)
      then spring sign s
      else Inr s)"

text \<open>
  \<^verbatim>\<open>CartesianWrenchController::update()\<close>. The result is a fault, or the controller after
  the tick together with the vector handed to \<^verbatim>\<open>chain_.setEfforts\<close>, \<open>None\<close> when the tick
  returns without commanding the chain.
\<close>

definition update_wrench ::
  "(real \<Rightarrow> real) \<Rightarrow> (real list \<Rightarrow> Jacobian) \<Rightarrow> Chain \<Rightarrow> wrench_controller
     \<Rightarrow> fault + wrench_controller \<times> real list option" where
  "update_wrench sign JntToJac chain s =
     (if \<not> allCalibrated chain then Inr (s, None)
      else case project JntToJac chain s of
             Inl f \<Rightarrow> Inl f
           | Inr t \<Rightarrow>
               (case constrain sign chain t of
                  Inl f \<Rightarrow> Inl f
                | Inr s' \<Rightarrow> Inr (s', Some (jnt_eff' s'))))"

subsection \<open>Vocabulary of the wrench properties\<close>

text \<open>
  What the theorems ask of the sign function: 1 on positive and -1 on negative arguments.
  Its value at 0 is left open. \<open>kdl_sign\<close> is one such function.
\<close>

definition sign_contract :: "(real \<Rightarrow> real) \<Rightarrow> bool" where
  "sign_contract sign = (\<forall>x. (0 < x \<longrightarrow> sign x = 1) \<and> (x < 0 \<longrightarrow> sign x = - 1))"

definition kdl_sign :: "real \<Rightarrow> real" where
  "kdl_sign x = (if x < 0 then - 1 else 1)"

text \<open>The Jacobian-transpose projection of the wrench onto joint \<open>i\<close>.\<close>

definition task_effort :: "Jacobian \<Rightarrow> Wrench \<Rightarrow> nat \<Rightarrow> real" where
  "task_effort jac w i = (\<Sum>j<6. jac j i * wrench_at w j)"

text \<open>\<open>init()\<close> resizes \<^verbatim>\<open>jnt_eff_\<close> to the chain's number of joints.\<close>

definition well_sized :: "Chain \<Rightarrow> wrench_controller \<Rightarrow> bool" where
  "well_sized chain s = (length (jnt_eff' s) = getNrOfJoints chain)"

text \<open>What a tick with result \<open>r\<close> handed to the chain.\<close>

definition sent ::
  "fault + wrench_controller \<times> real list option \<Rightarrow> fault + real list option" where
  "sent r = map_sum id snd r"

subsection \<open>Example chains and controllers\<close>

definition identity_jacobian :: Jacobian where
  "identity_jacobian = (\<lambda>j i. if j = i then 1 else 0)"

definition unit_force_x :: Wrench where
  "unit_force_x = \<lparr>force_x = 1, force_y = 0, force_z = 0,
                   torque_x = 0, torque_y = 0, torque_z = 0\<rparr>"

definition example_wrench :: Wrench where
  "example_wrench = \<lparr>force_x = 7, force_y = 3, force_z = 0,
                     torque_x = 0, torque_y = 0, torque_z = 0\<rparr>"

definition example_controller ::
  "JointConstraint \<Rightarrow> Wrench \<Rightarrow> real list \<Rightarrow> wrench_controller" where
  "example_controller c w buf =
     \<lparr>constraint' = c, wrench_desi' = w, jnt_pos' = buf, jnt_eff' = buf,
      jacobian' = (\<lambda>j i. 0)\<rparr>"

definition spring_constraint :: "int \<Rightarrow> JointConstraint" where
  "spring_constraint k = \<lparr>joint = k, soft_limit = 1, hard_limit = 1.5, stiffness = 10\<rparr>"

definition six_joints :: Chain where
  "six_joints = replicate 6 (joint_at 0 True)"

definition two_joints :: "real \<Rightarrow> Chain" where
  "two_joints p = [joint_at 0 True, joint_at p True]"

section \<open>Proofs about the calibration controller\<close>

lemmas update_defs = update_calibration_def vc_step_def closing_count_def closing_finish_def
  publish_step_def

lemmas tick_defs = tick_def sense_def update_defs set_calibrated_def

lemmas example_defs = init_system_def joint_at_def stall_env_def move_env_def at_time_def
  closing_system_def calibrated_system_def beginning_system_def

subsection \<open>The order of the states\<close>

lemma sense_state [simp]: "state' (sense e s) = state' s"
  by (simp add: sense_def)

lemma update_state_step:
  "state' (update_calibration s) = state' s \<or> (state' s \<noteq> CALIBRATED \<and> state' (update_calibration s) = next_state (state' s))"
  by (cases "state' s") (simp_all add: update_defs)

lemma tick_state_step:
  "state' (tick e s) = state' s \<or> (state' s \<noteq> CALIBRATED \<and> state' (tick e s) = next_state (state' s))"
  using update_state_step [of "sense e s"] by (simp add: tick_def)

lemma update_CALIBRATED: "state' s = CALIBRATED \<Longrightarrow> state' (update_calibration s) = CALIBRATED"
  by (simp add: update_defs)

lemma tick_CALIBRATED: "state' s = CALIBRATED \<Longrightarrow> state' (tick e s) = CALIBRATED"
  by (simp add: tick_def update_CALIBRATED)

lemma run_CALIBRATED: "state' s = CALIBRATED \<Longrightarrow> state' (run es s) = CALIBRATED"
  by (induction es arbitrary: s) (simp_all add: tick_CALIBRATED)

lemma trace_hd: "\<exists>ts. trace es s = state' s # ts"
  by (cases es) simp_all

lemma order_from_unfold: "st \<noteq> CALIBRATED \<Longrightarrow> order_from st = st # order_from (next_state st)"
  by (cases st) simp_all

lemma order_from_hd: "\<exists>ts. order_from st = st # ts"
  by (cases st) simp_all

lemma trace_prefix: "prefix (remdups_adj (trace es s)) (order_from (state' s))"
proof (induction es arbitrary: s)
  case Nil
  obtain ts where "order_from (state' s) = state' s # ts" using order_from_hd by blast
  then show ?case by simp
next
  case (Cons e es)
  obtain ts where ts: "trace es (tick e s) = state' (tick e s) # ts" using trace_hd by blast
  have IH: "prefix (remdups_adj (trace es (tick e s))) (order_from (state' (tick e s)))"
    by (rule Cons.IH)
  from tick_state_step [of e s] show ?case
  proof
    assume same: "state' (tick e s) = state' s"
    then have "remdups_adj (trace (e # es) s) = remdups_adj (trace es (tick e s))"
      using ts by simp
    with IH same show ?thesis by simp
  next
    assume adv: "state' s \<noteq> CALIBRATED \<and> state' (tick e s) = next_state (state' s)"
    then have ne: "state' (tick e s) \<noteq> state' s" by (cases "state' s") simp_all
    then have "remdups_adj (trace (e # es) s) = state' s # remdups_adj (trace es (tick e s))"
      using ts by simp
    moreover have "order_from (state' s) = state' s # order_from (state' (tick e s))"
      using adv order_from_unfold by simp
    ultimately show ?thesis using IH by simp
  qed
qed

subsection \<open>What a tick leaves alone\<close>

lemma sense_frame [simp]:
  "joint' (sense e s) = joint' s" "other_joints' (sense e s) = other_joints' s"
  "stop_count' (sense e s) = stop_count' s" "count' (sense e s) = count' s"
  "published (sense e s) = published s" "last_publish_time' (sense e s) = last_publish_time' s"
  "vc_command (sense e s) = vc_command s" "pub_calibrated' (sense e s) = pub_calibrated' s"
  "search_velocity' (sense e s) = search_velocity' s"
  "robot_time (sense e s) = now e" "trylock_free (sense e s) = lock_free e"
  "velocity' (joints (sense e s) (joint' s)) = velocity e"
  "act_position' (actuator' (sense e s)) = raw_position e"
  "calibrated' (joints (sense e s) j) = calibrated' (joints s j)"
  by (simp_all add: sense_def)

lemma update_handles: "joint' (update_calibration s) = joint' s \<and> other_joints' (update_calibration s) = other_joints' s"
  by (cases "state' s") (simp_all add: update_defs)

lemma tick_handles: "joint' (tick e s) = joint' s \<and> other_joints' (tick e s) = other_joints' s"
  by (simp add: tick_def update_handles)

lemma run_handles: "joint' (run es s) = joint' s \<and> other_joints' (run es s) = other_joints' s"
  by (induction es arbitrary: s) (simp_all add: tick_handles)

lemma run_append: "run (xs @ ys) s = run ys (run xs s)"
  by (induction xs arbitrary: s) simp_all

subsection \<open>The stall counter\<close>

text \<open>\<^verbatim>\<open>CLOSING\<close> is entered from \<^verbatim>\<open>STARTING\<close> only, with the stall counter at 0.\<close>

lemma enter_closing:
  "state' s = STARTING \<Longrightarrow> state' (update_calibration s) = CLOSING \<Longrightarrow>
     stop_count' (update_calibration s) = 0"
  by (simp add: update_defs split: if_splits)

lemma tick_closing_count:
  "state' s = CLOSING \<Longrightarrow>
     stop_count' (tick e s) = (if stalled e then stop_count' s + 1 else 0)"
  by (simp add: tick_def update_defs stalled_def)

lemma tick_closing_state:
  "state' s = CLOSING \<Longrightarrow>
     state' (tick e s) = (if stop_count' (tick e s) > 100 then CALIBRATED else CLOSING)"
  by (simp add: tick_def update_defs stalled_def)

lemma fold_set_calibrated:
  "calibrated' (fold (set_calibrated True) js st j) = (j \<in> set js \<or> calibrated' (st j))"
  by (induction js arbitrary: st) (auto simp: set_calibrated_def)

lemma tick_closing_transition:
  assumes "state' s = CLOSING" "state' (tick e s) = CALIBRATED"
  shows "zero_offset' (actuator' (tick e s)) = raw_position e"
    and "act_position' (actuator' (tick e s)) = raw_position e"
    and "calibrated' (joints (tick e s) (joint' s))"
    and "\<forall>j \<in> set (other_joints' s). calibrated' (joints (tick e s) j)"
    and "vc_command (tick e s) = 0"
  using assms
  by (simp_all add: tick_def update_defs fold_set_calibrated set_calibrated_def split: if_splits)

lemma run_stalled:
  "state' s = CLOSING \<Longrightarrow> list_all stalled es \<Longrightarrow> stop_count' s + int (length es) \<le> 100 \<Longrightarrow>
     state' (run es s) = CLOSING \<and> stop_count' (run es s) = stop_count' s + int (length es)"
proof (induction es arbitrary: s)
  case Nil
  then show ?case by simp
next
  case (Cons e es)
  have c: "stop_count' (tick e s) = stop_count' s + 1"
    using Cons.prems by (simp add: tick_closing_count)
  have st: "state' (tick e s) = CLOSING"
    using Cons.prems c by (simp add: tick_closing_state)
  show ?case
    using Cons.IH [of "tick e s"] Cons.prems c st by simp
qed

text \<open>
  From the \<^verbatim>\<open>BEGINNING\<close> tick on, the counters stay within 0..500 and 0..101, far from
  the range of a C++ \<open>int\<close>.
\<close>

lemma counters_bounded:
  assumes "state' s \<noteq> INITIALIZED"
    and "state' s \<noteq> BEGINNING \<longrightarrow>
           0 \<le> count' s \<and> count' s \<le> 500 \<and> 0 \<le> stop_count' s \<and> stop_count' s \<le> 101
           \<and> (state' s = CLOSING \<longrightarrow> stop_count' s \<le> 100)"
  shows "0 \<le> count' (tick e s) \<and> count' (tick e s) \<le> 500
       \<and> 0 \<le> stop_count' (tick e s) \<and> stop_count' (tick e s) \<le> 101
       \<and> (state' (tick e s) = CLOSING \<longrightarrow> stop_count' (tick e s) \<le> 100)"
  using assms by (cases "state' s") (simp_all add: tick_def sense_def update_defs)

subsection \<open>Runs of qualifying ticks\<close>

lemma has_stall_run_0: "has_stall_run 0 es"
  by (cases es) simp_all

lemma has_stall_run_append_left: "has_stall_run n ys \<Longrightarrow> has_stall_run n (xs @ ys)"
  by (induction xs) simp_all

lemma has_stall_run_append_right: "has_stall_run n xs \<Longrightarrow> has_stall_run n (xs @ ys)"
proof (induction xs)
  case Nil
  then show ?case by (simp add: has_stall_run_0)
next
  case (Cons x xs)
  from Cons.prems have "(n \<le> length (x # xs) \<and> list_all stalled (take n (x # xs)))
                        \<or> has_stall_run n xs" by simp
  then show ?case
  proof
    assume h: "n \<le> length (x # xs) \<and> list_all stalled (take n (x # xs))"
    then have "take n ((x # xs) @ ys) = take n (x # xs)"
      unfolding take_append by simp
    with h show ?thesis by simp
  next
    assume "has_stall_run n xs"
    then show ?thesis using Cons.IH by simp
  qed
qed

lemma has_stall_run_Suc: "has_stall_run (Suc n) es \<Longrightarrow> has_stall_run n es"
proof (induction es)
  case Nil
  then show ?case by simp
next
  case (Cons e es)
  from Cons.prems have "(Suc n \<le> length (e # es) \<and> list_all stalled (take (Suc n) (e # es)))
                        \<or> has_stall_run (Suc n) es" by simp
  then show ?case
  proof
    assume h: "Suc n \<le> length (e # es) \<and> list_all stalled (take (Suc n) (e # es))"
    have "set (take n (e # es)) \<subseteq> set (take (Suc n) (e # es))"
      by (rule set_take_subset_set_take) simp
    with h have "list_all stalled (take n (e # es))" by (auto simp: list_all_iff)
    with h show ?thesis by simp
  next
    assume "has_stall_run (Suc n) es"
    then show ?thesis using Cons.IH by simp
  qed
qed

lemma trailing_stall_snoc:
  "trailing_stall (es @ [e]) = (if stalled e then Suc (trailing_stall es) else 0)"
  by (simp add: trailing_stall_def)

lemma trailing_stall_run: "n \<le> trailing_stall es \<Longrightarrow> has_stall_run n es"
proof -
  assume n: "n \<le> trailing_stall es"
  define suf where "suf = rev (takeWhile stalled (rev es))"
  define pre where "pre = rev (dropWhile stalled (rev es))"
  have es: "es = pre @ suf"
    by (metis pre_def suf_def rev_append rev_rev_ident takeWhile_dropWhile_id)
  have all: "list_all stalled suf"
    by (auto simp: suf_def list_all_iff dest: set_takeWhileD)
  have len: "n \<le> length suf" using n by (simp add: suf_def trailing_stall_def)
  have "has_stall_run n suf"
  proof (cases suf)
    case Nil
    then show ?thesis using len by simp
  next
    case (Cons a as)
    have "list_all stalled (take n suf)"
      using all by (auto simp: list_all_iff dest: in_set_takeD)
    then show ?thesis using len Cons by simp
  qed
  then show ?thesis by (subst es) (rule has_stall_run_append_left)
qed

lemma run_no_stall:
  "state' s = CLOSING \<Longrightarrow> stop_count' s = 0 \<Longrightarrow> \<not> has_stall_run 101 es \<Longrightarrow>
     state' (run es s) = CLOSING \<and> stop_count' (run es s) = int (trailing_stall es)"
proof (induction es rule: rev_induct)
  case Nil
  then show ?case by (simp add: trailing_stall_def)
next
  case (snoc e es)
  have "\<not> has_stall_run 101 es"
    using snoc.prems(3) has_stall_run_append_right by blast
  then have IH: "state' (run es s) = CLOSING" "stop_count' (run es s) = int (trailing_stall es)"
    using snoc.IH snoc.prems by simp_all
  have "\<not> 101 \<le> trailing_stall (es @ [e])"
    using snoc.prems(3) trailing_stall_run by blast
  then have le: "trailing_stall (es @ [e]) \<le> 100" by simp
  have c: "stop_count' (tick e (run es s)) = int (trailing_stall (es @ [e]))"
    using IH by (simp add: tick_closing_count trailing_stall_snoc)
  then have "state' (tick e (run es s)) = CLOSING"
    using IH(1) le by (simp add: tick_closing_state)
  with c show ?case by (simp add: run_append)
qed

text \<open>
  The same for an unending tick sequence \<open>ticks 0, ticks 1, \<dots>\<close>: if no prefix holds 100
  consecutive qualifying ticks, the state is \<open>CLOSING\<close> after every number of ticks.
\<close>

corollary closing_forever:
  assumes "state' s = CLOSING" and "stop_count' s = 0"
    and "\<forall>n. \<not> has_stall_run 100 (map ticks [0..<n])"
  shows "\<forall>n. state' (run (map ticks [0..<n]) s) = CLOSING"
proof
  fix n
  have "\<not> has_stall_run (Suc 100) (map ticks [0..<n])"
    using assms(3) has_stall_run_Suc by blast
  then have "\<not> has_stall_run 101 (map ticks [0..<n])" by simp
  then show "state' (run (map ticks [0..<n]) s) = CLOSING"
    using run_no_stall [OF assms(1,2)] by simp
qed

subsection \<open>The publish log\<close>

lemma tick_published_cases:
  "(published (tick e s) = published s \<and> last_publish_time' (tick e s) = last_publish_time' s)
   \<or> (state' s = CALIBRATED \<and> lock_free e \<and> last_publish_time' s + 500000000 < now e
       \<and> published (tick e s) = now e # published s \<and> last_publish_time' (tick e s) = now e)"
  by (cases "state' s") (simp_all add: tick_def update_defs)

lemma tick_pub_inv: "pub_inv s \<Longrightarrow> pub_inv (tick e s)"
  using tick_published_cases [of e s]
  by (cases "published s") (auto simp: pub_inv_def)

lemma run_pub_inv: "pub_inv s \<Longrightarrow> pub_inv (run es s)"
  by (induction es arbitrary: s) (simp_all add: tick_pub_inv)

lemma spaced_Cons: "spaced (t # ts) \<Longrightarrow> spaced ts \<and> (\<forall>x \<in> set ts. x + 500000000 < t)"
proof (induction ts arbitrary: t)
  case Nil
  then show ?case by simp
next
  case (Cons u us)
  then have "u + 500000000 < t" "spaced (u # us)" by simp_all
  moreover from Cons.IH [OF \<open>spaced (u # us)\<close>] have "\<forall>x \<in> set us. x + 500000000 < u" by simp
  ultimately show ?case by auto
qed

lemma spaced_nth: "spaced ts \<Longrightarrow> i < j \<Longrightarrow> j < length ts \<Longrightarrow> ts ! j + 500000000 < ts ! i"
proof (induction ts arbitrary: i j)
  case Nil
  then show ?case by simp
next
  case (Cons t ts)
  from spaced_Cons [OF Cons.prems(1)]
  have sp: "spaced ts" and gap: "\<forall>x \<in> set ts. x + 500000000 < t" by simp_all
  obtain j' where j: "j = Suc j'" using Cons.prems(2) by (cases j) simp_all
  show ?case
  proof (cases i)
    case 0
    have "ts ! j' \<in> set ts" using Cons.prems(3) j by simp
    then show ?thesis using gap 0 j by simp
  next
    case (Suc i')
    then show ?thesis using Cons.IH [OF sp, of i' j'] Cons.prems j by simp
  qed
qed

section \<open>Proofs about the wrench controller\<close>

lemmas wrench_example_defs = joint_at_def identity_jacobian_def unit_force_x_def
  example_wrench_def example_controller_def spring_constraint_def six_joints_def two_joints_def

lemma fold_add: "fold (\<lambda>j acc. acc + f j) [0..<n] (a::real) = a + (\<Sum>j<n. f j)"
  by (induction n) simp_all

lemma joint_effort_sum: "joint_effort jac w i = task_effort jac w i"
  by (simp add: joint_effort_def task_effort_def fold_add)

lemma sum_lessThan_6: "(\<Sum>j<6. f j) = f 0 + f 1 + f 2 + f 3 + f 4 + f (5::nat) + (0::real)"
  by (simp add: eval_nat_numeral lessThan_Suc)

lemma fold_write_length: "length (fold (\<lambda>i eff. eff[i := g i]) [0..<m] (eff0::real list)) = length eff0"
  by (induction m) simp_all

lemma fold_write_nth:
  "i < length eff0 \<Longrightarrow>
     fold (\<lambda>i eff. eff[i := g i]) [0..<m] (eff0::real list) ! i = (if i < m then g i else eff0 ! i)"
  by (induction m) (auto simp: fold_write_length nth_list_update less_Suc_eq)

text \<open>Within the bounds of the vector the checked loop is the plain loop.\<close>

lemma fold_checked:
  "m \<le> length eff0 \<Longrightarrow>
     fold (\<lambda>i r. case r of Inl f \<Rightarrow> Inl f | Inr eff \<Rightarrow> vec_set eff (int i) (g i))
       [0..<m] (Inr eff0)
     = Inr (fold (\<lambda>i eff. eff[i := g i]) [0..<m] eff0)"
  by (induction m) (simp_all add: vec_set_def fold_write_length)

text \<open>One step past the end of the vector the checked loop faults.\<close>

lemma fold_checked_overrun:
  "fold (\<lambda>i r. case r of Inl f \<Rightarrow> Inl f | Inr eff \<Rightarrow> vec_set eff (int i) (g i))
       [0..<Suc (length eff0)] (Inr eff0) = Inl OutOfBounds"
proof -
  let ?F = "\<lambda>i r. case r of Inl f \<Rightarrow> Inl f | Inr eff \<Rightarrow> vec_set eff (int i) (g i)"
  have "fold ?F [0..<Suc (length eff0)] (Inr eff0)
          = ?F (length eff0) (fold ?F [0..<length eff0] (Inr eff0))"
    by simp
  also have "\<dots> = ?F (length eff0) (Inr (fold (\<lambda>i eff. eff[i := g i]) [0..<length eff0] eff0))"
    by (simp only: fold_checked [OF le_refl])
  also have "\<dots> = Inl OutOfBounds"
    by (simp add: vec_set_def fold_write_length)
  finally show ?thesis .
qed

lemma project_ok:
  assumes "well_sized chain s"
  obtains t where "project J chain s = Inr t"
    and "jnt_pos' t = getPositions chain"
    and "constraint' t = constraint' s"
    and "wrench_desi' t = wrench_desi' s"
    and "length (jnt_eff' t) = length chain"
    and "\<forall>i<length chain.
           jnt_eff' t ! i = task_effort (J (getPositions chain)) (wrench_desi' s) i"
proof -
  define g where "g = joint_effort (J (getPositions chain)) (wrench_desi' s)"
  define eff where "eff = fold (\<lambda>i eff. eff[i := g i]) [0..<length chain] (jnt_eff' s)"
  define t where "t = s\<lparr>jnt_pos' := getPositions chain, jacobian' := J (getPositions chain),
                        jnt_eff' := eff\<rparr>"
  have len: "length (jnt_eff' s) = length chain"
    using assms by (simp add: well_sized_def getNrOfJoints_def)
  have p: "project J chain s = Inr t"
    using len
    by (simp add: project_def Let_def getNrOfJoints_def fold_checked t_def eff_def g_def)
  have l: "length (jnt_eff' t) = length chain"
    using len by (simp add: t_def eff_def fold_write_length)
  have n: "\<forall>i<length chain.
           jnt_eff' t ! i = task_effort (J (getPositions chain)) (wrench_desi' s) i"
    using len by (simp add: t_def eff_def fold_write_nth g_def joint_effort_sum)
  show ?thesis
    using that [OF p _ _ _ l n] by (simp add: t_def)
qed

lemma int_of_unsigned_small: "n < 2 ^ 31 \<Longrightarrow> int_of_unsigned n = int n"
proof -
  assume "n < 2 ^ 31"
  then have "int n < 2 ^ 31" by (metis of_nat_less_iff of_nat_numeral of_nat_power)
  then show ?thesis by (simp add: int_of_unsigned_def Let_def)
qed

lemma int_of_unsigned_le: "int_of_unsigned n \<le> int n"
proof -
  have "int n mod 2 ^ 32 \<le> int n" by (rule zmod_le_nonneg_dividend) simp
  moreover have "int n mod 2 ^ 32 - 2 ^ 32 \<le> int n mod 2 ^ 32" by simp
  ultimately show ?thesis by (simp add: int_of_unsigned_def Let_def)
qed

text \<open>Without its range check the body faults on an index outside the position vector.\<close>

lemma spring_out_of_bounds:
  "joint (constraint' s) < 0 \<or> int (length (jnt_pos' s)) \<le> joint (constraint' s) \<Longrightarrow>
     spring sign s = Inl OutOfBounds"
  by (auto simp: spring_def Let_def vec_get_def)

lemma spring_in_bounds:
  assumes "0 \<le> joint (constraint' s)" and "joint (constraint' s) < int (length (jnt_pos' s))"
    and "length (jnt_eff' s) = length (jnt_pos' s)"
  shows "spring sign s =
     Inr (let c = constraint' s; k = nat (joint c); p = jnt_pos' s ! k;
              d = sign (hard_limit c - soft_limit c)
          in if d * (hard_limit c - p) < 0
             then s\<lparr>jnt_eff' := (jnt_eff' s)[k := stiffness c * (soft_limit c - p)]\<rparr>
             else if d * (soft_limit c - p) < 0
             then s\<lparr>jnt_eff' := (jnt_eff' s)[k := jnt_eff' s ! k + stiffness c * (soft_limit c - p)]\<rparr>
             else s)"
  using assms by (simp add: spring_def Let_def vec_get_def vec_set_def)

lemma constrain_invalid:
  "joint (constraint' s) < 0 \<or> int (getNrOfJoints chain) \<le> joint (constraint' s) \<Longrightarrow>
     constrain sign chain s = Inr s"
  using int_of_unsigned_le [of "getNrOfJoints chain"] by (auto simp: constrain_def)

lemma constrain_ok:
  assumes "length (jnt_pos' s) = length chain" and "length (jnt_eff' s) = length chain"
  obtains u where "constrain sign chain s = Inr u"
    and "length (jnt_eff' u) = length chain"
    and "\<forall>i. int i \<noteq> joint (constraint' s) \<longrightarrow> jnt_eff' u ! i = jnt_eff' s ! i"
proof (cases "0 \<le> joint (constraint' s)
              \<and> joint (constraint' s) < int_of_unsigned (getNrOfJoints chain)")
  case False
  then have "constrain sign chain s = Inr s" by (auto simp: constrain_def)
  then show ?thesis using that [of s] assms by simp
next
  case True
  then have b: "0 \<le> joint (constraint' s)" "joint (constraint' s) < int (length (jnt_pos' s))"
    using int_of_unsigned_le [of "getNrOfJoints chain"] assms(1)
    by (simp_all add: getNrOfJoints_def)
  have e: "length (jnt_eff' s) = length (jnt_pos' s)" using assms by simp
  have c: "constrain sign chain s = spring sign s" using True by (simp add: constrain_def)
  have ne: "nat (joint (constraint' s)) \<noteq> i" if "int i \<noteq> joint (constraint' s)" for i
    using that b(1) by auto
  show ?thesis
    by (rule that [OF c [unfolded spring_in_bounds [OF b e, of sign]]])
       (auto simp: Let_def assms ne)
qed

lemma constrain_valid:
  assumes "0 \<le> joint (constraint' s)" and "joint (constraint' s) < int (length chain)"
    and "length chain < 2 ^ 31"
    and "length (jnt_pos' s) = length chain" and "length (jnt_eff' s) = length chain"
    and "constrain sign chain s = Inr u"
  shows "jnt_eff' u ! nat (joint (constraint' s)) =
     (let c = constraint' s; k = nat (joint c); p = jnt_pos' s ! k;
          d = sign (hard_limit c - soft_limit c)
      in if d * (hard_limit c - p) < 0 then stiffness c * (soft_limit c - p)
         else if d * (soft_limit c - p) < 0 then jnt_eff' s ! k + stiffness c * (soft_limit c - p)
         else jnt_eff' s ! k)"
proof -
  have g: "int_of_unsigned (getNrOfJoints chain) = int (length chain)"
    using assms(3) by (simp add: int_of_unsigned_small getNrOfJoints_def)
  have b: "0 \<le> joint (constraint' s)" "joint (constraint' s) < int (length (jnt_pos' s))"
    using assms(1,2,4) by simp_all
  have e: "length (jnt_eff' s) = length (jnt_pos' s)" using assms(4,5) by simp
  have k: "nat (joint (constraint' s)) < length (jnt_eff' s)" using assms(1,2,5) by simp
  have "constrain sign chain s = spring sign s" using assms(1,2) g by (simp add: constrain_def)
  then have "Inr u = spring sign s" using assms(6) by simp
  then show ?thesis
    unfolding spring_in_bounds [OF b e, of sign] using k by (auto simp: Let_def)
qed

lemma past_hard_past_soft:
  assumes "sign_contract sign" and "sign (h - s) * (h - p) < 0"
  shows "sign (h - s) * (s - p) < 0"
proof -
  consider "0 < h - s" | "h - s < 0" | "h = s" by linarith
  then show ?thesis
  proof cases
    case 1
    then have "sign (h - s) = 1" using assms(1) by (simp add: sign_contract_def)
    with assms(2) 1 show ?thesis by simp
  next
    case 2
    then have "sign (h - s) = - 1" using assms(1) by (simp add: sign_contract_def)
    with assms(2) 2 show ?thesis by simp
  next
    case 3
    with assms(2) show ?thesis by simp
  qed
qed

lemma update_wrench_calibrated:
  "allCalibrated chain \<Longrightarrow> project J chain s = Inr t \<Longrightarrow> constrain sign chain t = Inr u \<Longrightarrow>
     update_wrench sign J chain s = Inr (u, Some (jnt_eff' u))"
  by (simp add: update_wrench_def)

lemma sign_contract_kdl: "sign_contract kdl_sign"
  by (simp add: sign_contract_def kdl_sign_def)

lemmas wrench_defs = update_wrench_def allCalibrated_def getPositions_def getNrOfJoints_def
  project_def constrain_def spring_def vec_get_def vec_set_def sent_def
  joint_effort_sum task_effort_def sum_lessThan_6 wrench_at_def
  int_of_unsigned_def well_sized_def kdl_sign_def Let_def

section \<open>The properties\<close>

text \<open>
  C1, as the code has it. The claim places the transition on the 100th qualifying tick;
  \<^verbatim>\<open>stop_count_ > 100\<close> is tested after the increment, so from a stall counter of 0 the
  first 100 qualifying ticks leave the state at \<open>CLOSING\<close> and the 101st takes the
  transition. On that tick the actuator's zero offset becomes the raw position the
  actuator reports on that tick, the primary joint and every dependent joint are marked
  calibrated, and the setpoint of the inner velocity controller is 0.
\<close>

theorem stall_transition:
  assumes "state' s = CLOSING" and "stop_count' s = 0"
    and "length es = 101" and "list_all stalled es"
  shows "(\<forall>k\<le>100. state' (run (take k es) s) = CLOSING)
       \<and> state' (run es s) = CALIBRATED
       \<and> zero_offset' (actuator' (run es s)) = raw_position (last es)
       \<and> act_position' (actuator' (run es s)) = raw_position (last es)
       \<and> calibrated' (joints (run es s) (joint' s))
       \<and> (\<forall>j \<in> set (other_joints' s). calibrated' (joints (run es s) j))
       \<and> vc_command (run es s) = 0"
proof -
  have before: "state' (run (take k es) s) = CLOSING
                \<and> stop_count' (run (take k es) s) = int k" if "k \<le> 100" for k
  proof -
    have "list_all stalled (take k es)"
      using assms(4) by (auto simp: list_all_iff dest: in_set_takeD)
    moreover have "length (take k es) = k" using assms(3) that by simp
    ultimately show ?thesis
      using run_stalled [of s "take k es"] assms(1,2) that by simp
  qed
  define s100 where "s100 = run (take 100 es) s"
  define e where "e = last es"
  have es: "es = take 100 es @ [e]"
  proof -
    have "es \<noteq> []" using assms(3) by auto
    then have "es = butlast es @ [last es]" by simp
    moreover have "butlast es = take 100 es" using assms(3) by (simp add: butlast_conv_take)
    ultimately show ?thesis by (simp add: e_def)
  qed
  have run_es: "run es s = tick e s100"
    by (subst es) (simp add: run_append s100_def)
  have cl: "state' s100 = CLOSING" and cnt: "stop_count' s100 = 100"
    using before [of 100] by (simp_all add: s100_def)
  have "e \<in> set es" using es by (metis in_set_conv_decomp)
  then have "stalled e" using assms(4) by (simp add: list_all_iff)
  then have "stop_count' (tick e s100) = 101" using cl cnt by (simp add: tick_closing_count)
  then have cal: "state' (tick e s100) = CALIBRATED" using cl by (simp add: tick_closing_state)
  have h: "joint' s100 = joint' s" "other_joints' s100 = other_joints' s"
    using run_handles [of "take 100 es" s] by (simp_all add: s100_def)
  show ?thesis
    using before tick_closing_transition [OF cl cal] cal h by (simp add: run_es e_def)
qed

text \<open>
  C1 at a concrete system: 100 qualifying ticks after entering \<open>CLOSING\<close> the state is not
  \<open>CALIBRATED\<close>.
\<close>

theorem stall_transition_counterexample:
  "state' closing_system = CLOSING \<and> stop_count' closing_system = 0
   \<and> list_all stalled (replicate 100 stall_env)
   \<and> state' (run (replicate 100 stall_env) closing_system) \<noteq> CALIBRATED"
proof -
  have a: "state' closing_system = CLOSING" "stop_count' closing_system = 0"
    by (simp_all add: example_defs)
  have b: "list_all stalled (replicate 100 stall_env)"
    by (simp add: list_all_iff stalled_def stall_env_def)
  show ?thesis using a b run_stalled [of closing_system "replicate 100 stall_env"] by simp
qed

text \<open>C1 at a concrete system: 101 ticks at velocity 0 and raw position 0.25.\<close>

theorem stall_transition_witness:
  "state' closing_system = CLOSING \<and> stop_count' closing_system = 0
   \<and> length (replicate 101 stall_env) = 101 \<and> list_all stalled (replicate 101 stall_env)
   \<and> state' (run (replicate 100 stall_env) closing_system) = CLOSING
   \<and> state' (run (replicate 101 stall_env) closing_system) = CALIBRATED
   \<and> zero_offset' (actuator' (run (replicate 101 stall_env) closing_system)) = 0.25
   \<and> calibrated' (joints (run (replicate 101 stall_env) closing_system) 0)
   \<and> calibrated' (joints (run (replicate 101 stall_env) closing_system) 1)
   \<and> calibrated' (joints (run (replicate 101 stall_env) closing_system) 2)
   \<and> vc_command (run (replicate 101 stall_env) closing_system) = 0"
proof -
  have a: "state' closing_system = CLOSING" "stop_count' closing_system = 0"
    "joint' closing_system = 0" "other_joints' closing_system = [1, 2]"
    by (simp_all add: example_defs)
  have b: "list_all stalled (replicate 101 stall_env)"
    by (simp add: list_all_iff stalled_def stall_env_def)
  have l: "last (replicate 101 stall_env) = stall_env" by simp
  have t: "take 100 (replicate 101 stall_env) = replicate 100 stall_env" by simp
  have r: "raw_position stall_env = 0.25" by (simp add: stall_env_def)
  from stall_transition [OF a(1,2) _ b] have
    "(\<forall>k\<le>100. state' (run (take k (replicate 101 stall_env)) closing_system) = CLOSING)
     \<and> state' (run (replicate 101 stall_env) closing_system) = CALIBRATED
     \<and> zero_offset' (actuator' (run (replicate 101 stall_env) closing_system)) = 0.25
     \<and> calibrated' (joints (run (replicate 101 stall_env) closing_system) 0)
     \<and> (\<forall>j \<in> set [1, 2]. calibrated' (joints (run (replicate 101 stall_env) closing_system) j))
     \<and> vc_command (run (replicate 101 stall_env) closing_system) = 0"
    by (simp only: l r a(3,4) length_replicate) simp
  then show ?thesis using a(1,2) b t by (metis le_refl length_replicate list.set_intros(1,2))
qed

text \<open>
  C2: with a constraint on a valid joint index \<open>k\<close> and \<open>d = sign (hard_limit - soft_limit)\<close>,
  on a calibrated chain the effort sent for joint \<open>k\<close> is \<open>stiffness * (soft_limit - p)\<close>
  alone when the position \<open>p\<close> is past the hard limit (\<open>d * (hard_limit - p) < 0\<close>), the
  Jacobian-transpose effort plus that term when \<open>p\<close> is past the soft limit but not the
  hard limit, and the Jacobian-transpose effort unchanged when \<open>p\<close> is not past the soft
  limit. With soft limit 1, hard limit 1.5, stiffness 10 and position 1.6 the effort is
  -6 whatever the desired wrench and the Jacobian are. Chains have fewer than \<open>2^31\<close>
  joints, so that the cast of the joint count to \<open>int\<close> keeps its value. The tick ends
  without a fault.
\<close>

theorem constraint_spring:
  assumes "allCalibrated chain" and "well_sized chain s" and "sign_contract sign"
    and "0 \<le> joint (constraint' s)" and "joint (constraint' s) < int (length chain)"
    and "length chain < 2 ^ 31"
  shows "\<exists>s' eff. update_wrench sign J chain s = Inr (s', Some eff) \<and>
     (let c = constraint' s; k = nat (joint c); p = position' (chain ! k);
          d = sign (hard_limit c - soft_limit c);
          task = (\<Sum>j<6. J (getPositions chain) j k * wrench_at (wrench_desi' s) j)
      in (d * (hard_limit c - p) < 0 \<longrightarrow> eff ! k = stiffness c * (soft_limit c - p))
       \<and> (\<not> d * (hard_limit c - p) < 0 \<and> d * (soft_limit c - p) < 0
            \<longrightarrow> eff ! k = task + stiffness c * (soft_limit c - p))
       \<and> (\<not> d * (soft_limit c - p) < 0 \<longrightarrow> eff ! k = task)
       \<and> (soft_limit c = 1 \<and> hard_limit c = 1.5 \<and> stiffness c = 10 \<and> p = 1.6
            \<longrightarrow> eff ! k = - 6))"
proof -
  define c where "c = constraint' s"
  define k where "k = nat (joint c)"
  define p where "p = position' (chain ! k)"
  define d where "d = sign (hard_limit c - soft_limit c)"
  define task where "task = (\<Sum>j<6. J (getPositions chain) j k * wrench_at (wrench_desi' s) j)"
  have k: "k < length chain" using assms(4,5) by (simp add: k_def c_def)
  from project_ok [OF assms(2), of J] obtain t where
    pt: "project J chain s = Inr t" and tpos: "jnt_pos' t = getPositions chain"
    and tc': "constraint' t = constraint' s"
    and tl: "length (jnt_eff' t) = length chain"
    and tn: "\<forall>i<length chain.
               jnt_eff' t ! i = task_effort (J (getPositions chain)) (wrench_desi' s) i"
    by blast
  have tpl: "length (jnt_pos' t) = length chain" by (simp add: tpos getPositions_def)
  from constrain_ok [OF tpl tl, of sign] obtain u where cu: "constrain sign chain t = Inr u"
    by blast
  define eff where "eff = jnt_eff' u"
  have tc: "constraint' t = c" by (simp add: tc' c_def)
  have tp: "jnt_pos' t ! k = p" using k by (simp add: tpos p_def getPositions_def)
  have te: "jnt_eff' t ! k = task" using tn k by (simp add: task_def task_effort_def)
  have eff: "eff ! k =
      (if d * (hard_limit c - p) < 0 then stiffness c * (soft_limit c - p)
       else if d * (soft_limit c - p) < 0 then task + stiffness c * (soft_limit c - p)
       else task)"
  proof -
    have "0 \<le> joint (constraint' t)" "joint (constraint' t) < int (length chain)"
      using assms(4,5) by (simp_all add: tc')
    from constrain_valid [OF this assms(6) tpl tl cu] show ?thesis
      unfolding Let_def tc k_def [symmetric] tp te d_def [symmetric] eff_def [symmetric] .
  qed
  have hs: "d * (soft_limit c - p) < 0" if "d * (hard_limit c - p) < 0"
    using past_hard_past_soft [OF assms(3)] that by (simp add: d_def)
  have ex: "eff ! k = - 6"
    if "soft_limit c = 1" "hard_limit c = 1.5" "stiffness c = 10" "p = 1.6"
  proof -
    have "d = 1" using assms(3) that by (simp add: d_def sign_contract_def)
    then show ?thesis using eff that by simp
  qed
  have "update_wrench sign J chain s = Inr (u, Some eff)"
    using update_wrench_calibrated [OF assms(1) pt cu] by (simp add: eff_def)
  moreover have "(d * (hard_limit c - p) < 0 \<longrightarrow> eff ! k = stiffness c * (soft_limit c - p))
       \<and> (\<not> d * (hard_limit c - p) < 0 \<and> d * (soft_limit c - p) < 0
            \<longrightarrow> eff ! k = task + stiffness c * (soft_limit c - p))
       \<and> (\<not> d * (soft_limit c - p) < 0 \<longrightarrow> eff ! k = task)
       \<and> (soft_limit c = 1 \<and> hard_limit c = 1.5 \<and> stiffness c = 10 \<and> p = 1.6
            \<longrightarrow> eff ! k = - 6)"
    using eff hs ex by auto
  ultimately show ?thesis
    unfolding Let_def c_def [symmetric] k_def [symmetric] p_def [symmetric] d_def [symmetric]
      task_def [symmetric]
    by blast
qed

text \<open>
  C2 on a chain of two joints with the constraint on joint 1 and a wrench that projects to
  efforts 7 and 3: past the hard limit (1.6), between the limits (1.2), below the soft
  limit (0.5).
\<close>

theorem constraint_spring_witness:
  "allCalibrated (two_joints 1.6)
   \<and> well_sized (two_joints 1.6) (example_controller (spring_constraint 1) example_wrench [0, 0])
   \<and> sign_contract kdl_sign
   \<and> sent (update_wrench kdl_sign (\<lambda>_. identity_jacobian) (two_joints 1.6)
        (example_controller (spring_constraint 1) example_wrench [0, 0])) = Inr (Some [7, - 6])
   \<and> sent (update_wrench kdl_sign (\<lambda>_. identity_jacobian) (two_joints 1.2)
        (example_controller (spring_constraint 1) example_wrench [0, 0])) = Inr (Some [7, 1])
   \<and> sent (update_wrench kdl_sign (\<lambda>_. identity_jacobian) (two_joints 0.5)
        (example_controller (spring_constraint 1) example_wrench [0, 0])) = Inr (Some [7, 3])"
  using constraint_spring [of "two_joints 1.6"
          "example_controller (spring_constraint 1) example_wrench [0, 0]" kdl_sign
          "\<lambda>_. identity_jacobian"]
    constraint_spring [of "two_joints 1.2"
          "example_controller (spring_constraint 1) example_wrench [0, 0]" kdl_sign
          "\<lambda>_. identity_jacobian"]
    constraint_spring [of "two_joints 0.5"
          "example_controller (spring_constraint 1) example_wrench [0, 0]" kdl_sign
          "\<lambda>_. identity_jacobian"] sign_contract_kdl
  by (simp add: wrench_example_defs wrench_defs)

text \<open>
  C3: on a calibrated chain the tick is the projection loop followed by the constraint
  block, neither of them faults, and after the projection loop and before the constraint
  block, entry \<open>i\<close> of the effort
  vector is the sum over the 6 wrench components \<open>j\<close> of \<open>J j i * W j\<close>, for every joint
  index \<open>i\<close> of the chain, with \<open>J\<close> the Jacobian fetched this tick. With 6 joints, the
  identity Jacobian and the wrench (1,0,0,0,0,0) the vector is (1,0,0,0,0,0).
\<close>

theorem projection_efforts:
  assumes "allCalibrated chain" and "well_sized chain s" and "i < length chain"
  shows "\<exists>t u. project J chain s = Inr t \<and> constrain sign chain t = Inr u
       \<and> update_wrench sign J chain s = Inr (u, Some (jnt_eff' u))
       \<and> jnt_eff' t ! i
           = (\<Sum>j<6. J (getPositions chain) j i * wrench_at (wrench_desi' s) j)
       \<and> (length chain = 6 \<and> J (getPositions chain) = (\<lambda>j i. if j = i then 1 else 0)
            \<and> wrench_desi' s = \<lparr>force_x = 1, force_y = 0, force_z = 0,
                                 torque_x = 0, torque_y = 0, torque_z = 0\<rparr>
          \<longrightarrow> jnt_eff' t = [1, 0, 0, 0, 0, 0])"
proof -
  from project_ok [OF assms(2), of J] obtain t where
    pt: "project J chain s = Inr t" and tpos: "jnt_pos' t = getPositions chain"
    and tl: "length (jnt_eff' t) = length chain"
    and tn: "\<forall>i<length chain.
               jnt_eff' t ! i = task_effort (J (getPositions chain)) (wrench_desi' s) i"
    by blast
  have tpl: "length (jnt_pos' t) = length chain" by (simp add: tpos getPositions_def)
  from constrain_ok [OF tpl tl, of sign] obtain u where cu: "constrain sign chain t = Inr u"
    by blast
  have nth: "jnt_eff' t ! m
           = (\<Sum>j<6. J (getPositions chain) j m * wrench_at (wrench_desi' s) j)"
    if "m < length chain" for m
    using tn that by (simp add: task_effort_def)
  have ex: "jnt_eff' t = [1, 0, 0, 0, 0, 0]"
    if six: "length chain = 6" and jac: "J (getPositions chain) = (\<lambda>j i. if j = i then 1 else 0)"
      and w: "wrench_desi' s = \<lparr>force_x = 1, force_y = 0, force_z = 0,
                                 torque_x = 0, torque_y = 0, torque_z = 0\<rparr>"
  proof (rule nth_equalityI)
    show len: "length (jnt_eff' t) = length [1, 0, 0, 0, 0, 0::real]"
      using tl six by simp
    fix m assume "m < length (jnt_eff' t)"
    then have m: "m < 6" using len by simp
    then have "m = 0 \<or> m = 1 \<or> m = 2 \<or> m = 3 \<or> m = 4 \<or> m = 5" by arith
    then show "jnt_eff' t ! m = [1, 0, 0, 0, 0, 0] ! m"
      using nth [of m] m six
      by (auto simp: jac w wrench_at_def sum_lessThan_6)
  qed
  show ?thesis
    using pt cu nth [OF assms(3)] ex update_wrench_calibrated [OF assms(1) pt cu] by blast
qed

text \<open>C3 on a chain of six joints with the identity Jacobian and a unit force along x.\<close>

theorem projection_efforts_witness:
  "allCalibrated six_joints
   \<and> well_sized six_joints
        (example_controller (spring_constraint (- 1)) unit_force_x (replicate 6 0))
   \<and> (0::nat) < length six_joints
   \<and> map_sum id jnt_eff' (project (\<lambda>_. identity_jacobian) six_joints
        (example_controller (spring_constraint (- 1)) unit_force_x (replicate 6 0)))
       = Inr [1, 0, 0, 0, 0, 0]"
proof -
  define c where "c = example_controller (spring_constraint (- 1)) unit_force_x (replicate 6 0)"
  have h1: "allCalibrated six_joints"
    by (simp add: allCalibrated_def six_joints_def joint_at_def list_all_iff)
  have h2: "well_sized six_joints c"
    by (simp add: c_def well_sized_def getNrOfJoints_def six_joints_def example_controller_def)
  have h3: "(0::nat) < length six_joints" by (simp add: six_joints_def)
  have six: "length six_joints = 6" by (simp add: six_joints_def)
  have jac: "(\<lambda>_. identity_jacobian) (getPositions six_joints) = (\<lambda>j i. if j = i then 1 else 0)"
    by (simp add: identity_jacobian_def)
  have w: "wrench_desi' c = \<lparr>force_x = 1, force_y = 0, force_z = 0,
                             torque_x = 0, torque_y = 0, torque_z = 0\<rparr>"
    by (simp add: c_def example_controller_def unit_force_x_def)
  from projection_efforts [OF h1 h2 h3, of "\<lambda>_. identity_jacobian" kdl_sign] six jac w
  obtain t where "project (\<lambda>_. identity_jacobian) six_joints c = Inr t"
    and "jnt_eff' t = [1, 0, 0, 0, 0, 0]"
    by blast
  then have "map_sum id jnt_eff' (project (\<lambda>_. identity_jacobian) six_joints c)
               = Inr [1, 0, 0, 0, 0, 0]"
    by simp
  then show ?thesis using h1 h2 h3 by (simp add: c_def)
qed

text \<open>
  C4: in a run that starts in \<open>INITIALIZED\<close> the states seen, with repetitions of the same
  state merged, are an initial piece of INITIALIZED, BEGINNING, STARTING, CLOSING,
  CALIBRATED; every tick, from any system state, keeps the state or moves it to its
  immediate successor; and no run leaves \<open>CALIBRATED\<close>.
\<close>

theorem state_order:
  "state' s = INITIALIZED \<Longrightarrow>
     prefix (remdups_adj (trace es s)) [INITIALIZED, BEGINNING, STARTING, CLOSING, CALIBRATED]
     \<and> (state' (tick e t) = state' t \<or>
          (state' t \<noteq> CALIBRATED \<and> state' (tick e t) = next_state (state' t)))
     \<and> (state' u = CALIBRATED \<longrightarrow> state' (run fs u) = CALIBRATED)"
  using trace_prefix [of es s] tick_state_step [of e t] run_CALIBRATED [of u fs]
  by simp

text \<open>C4 on the first three ticks of a fresh controller, and on two ticks after calibration.\<close>

theorem state_order_witness:
  "state' init_system = INITIALIZED
   \<and> trace [stall_env, stall_env, stall_env] init_system
       = [INITIALIZED, BEGINNING, STARTING, STARTING]
   \<and> prefix (remdups_adj (trace [stall_env, stall_env, stall_env] init_system))
        [INITIALIZED, BEGINNING, STARTING, CLOSING, CALIBRATED]
   \<and> state' (tick stall_env init_system) = BEGINNING
   \<and> state' calibrated_system = CALIBRATED
   \<and> state' (run [stall_env, move_env] calibrated_system) = CALIBRATED"
  using state_order [of init_system "[stall_env, stall_env, stall_env]" stall_env init_system
                        calibrated_system "[stall_env, move_env]"]
  by (simp add: example_defs tick_defs)

text \<open>
  C5, as the code has it. The tick that runs the \<open>BEGINNING\<close> case sets both counters to 0,
  clears the calibration flag of the primary joint, sets the actuator's zero offset to 0,
  commands the inner velocity controller at the search velocity and moves to \<open>STARTING\<close>.
  The claim also has it clear the flag of every dependent joint; the case writes
  \<^verbatim>\<open>joint_->calibrated_\<close> only, and every joint other than the primary one is left as it
  was.
\<close>

theorem beginning_tick:
  "state' s = BEGINNING \<Longrightarrow>
     count' (update_calibration s) = 0 \<and> stop_count' (update_calibration s) = 0
     \<and> \<not> calibrated' (joints (update_calibration s) (joint' s))
     \<and> (\<forall>j. j \<noteq> joint' s \<longrightarrow> joints (update_calibration s) j = joints s j)
     \<and> zero_offset' (actuator' (update_calibration s)) = 0
     \<and> vc_command (update_calibration s) = search_velocity' s
     \<and> state' (update_calibration s) = STARTING"
  by (simp add: update_defs set_calibrated_def)

text \<open>
  C5 at a concrete system: joint 1 is a dependent joint, is flagged calibrated before the
  \<open>BEGINNING\<close> tick, and is still flagged calibrated after it.
\<close>

theorem beginning_tick_counterexample:
  "state' beginning_system = BEGINNING
   \<and> 1 \<in> set (other_joints' beginning_system)
   \<and> calibrated' (joints (update_calibration beginning_system) 1)"
  by (simp add: example_defs update_defs set_calibrated_def)

text \<open>C5 at the same system: what the \<open>BEGINNING\<close> tick does change.\<close>

theorem beginning_tick_witness:
  "state' beginning_system = BEGINNING
   \<and> \<not> calibrated' (joints (update_calibration beginning_system) 0)
   \<and> joints (update_calibration beginning_system) 1 = joints beginning_system 1
   \<and> vc_command (update_calibration beginning_system) = 1
   \<and> state' (update_calibration beginning_system) = STARTING"
  using beginning_tick [of beginning_system]
  by (simp add: example_defs update_defs set_calibrated_def)

text \<open>
  C6: when some joint of the chain is uncalibrated, the tick ends without a fault, sends
  no effort vector to the chain and returns the controller state as it was, whatever the desired wrench, the
  constraint, the Jacobian and the sign function are.
\<close>

theorem uncalibrated_noop:
  "j \<in> set chain \<Longrightarrow> \<not> calibrated' j \<Longrightarrow> update_wrench sign J chain s = Inr (s, None)"
  by (auto simp: update_wrench_def allCalibrated_def list_all_iff)

text \<open>C6 on a chain of two joints, the second one uncalibrated.\<close>

theorem uncalibrated_noop_witness:
  "joint_at 0 False \<in> set [joint_at 0 True, joint_at 0 False]
   \<and> \<not> calibrated' (joint_at 0 False)
   \<and> update_wrench kdl_sign (\<lambda>_. identity_jacobian) [joint_at 0 True, joint_at 0 False]
        (example_controller (spring_constraint 1) example_wrench [0, 0])
      = Inr (example_controller (spring_constraint 1) example_wrench [0, 0], None)"
  using uncalibrated_noop [of "joint_at 0 False" "[joint_at 0 True, joint_at 0 False]" kdl_sign
          "\<lambda>_. identity_jacobian" "example_controller (spring_constraint 1) example_wrench [0, 0]"]
  by (simp add: joint_at_def)

text \<open>
  C7: in any run that starts in \<open>CALIBRATED\<close> with an empty publish log, any two entries
  of the log are more than 0.5 s (500000000 ns) apart, the later publish having the later
  time; a tick adds at most one entry, stamped with the robot time of that tick; and a
  tick on which \<^verbatim>\<open>trylock()\<close> fails adds none and keeps \<^verbatim>\<open>last_publish_time_\<close>.
\<close>

theorem publish_throttle:
  assumes "state' s = CALIBRATED" and "published s = []"
  shows "(\<forall>i j. i < j \<and> j < length (published (run es s)) \<longrightarrow>
            published (run es s) ! j + 500000000 < published (run es s) ! i)
       \<and> (published (tick e (run es s)) = published (run es s)
            \<or> published (tick e (run es s)) = now e # published (run es s))
       \<and> (\<not> lock_free e \<longrightarrow>
            published (tick e (run es s)) = published (run es s)
            \<and> last_publish_time' (tick e (run es s)) = last_publish_time' (run es s))"
proof -
  have "pub_inv s" using assms(2) by (simp add: pub_inv_def)
  then have "spaced (published (run es s))" using run_pub_inv by (simp add: pub_inv_def)
  then show ?thesis
    using spaced_nth tick_published_cases [of e "run es s"] by blast
qed

text \<open>
  C7 on ticks at 1.0 s, 1.2 s (too early), 2.0 s (lock taken), 2.1 s, and then 2.2 s with
  the lock taken.
\<close>

theorem publish_throttle_witness:
  "state' calibrated_system = CALIBRATED \<and> published calibrated_system = []
   \<and> published (run [at_time 1000000000 True, at_time 1200000000 True,
                      at_time 2000000000 False, at_time 2100000000 True] calibrated_system)
       = [2100000000, 1000000000]
   \<and> published (tick (at_time 2200000000 False)
        (run [at_time 1000000000 True, at_time 1200000000 True,
              at_time 2000000000 False, at_time 2100000000 True] calibrated_system))
       = [2100000000, 1000000000]"
  using publish_throttle [of calibrated_system
          "[at_time 1000000000 True, at_time 1200000000 True,
            at_time 2000000000 False, at_time 2100000000 True]" "at_time 2200000000 False"]
  by (simp add: example_defs tick_defs)

text \<open>
  C8: from \<open>CLOSING\<close> with the stall counter at 0, a tick sequence without 100 consecutive
  qualifying ticks keeps the state at \<open>CLOSING\<close> after each of its ticks, however long it
  is, and never reaches \<open>CALIBRATED\<close>; the next tick adds 1 to the stall counter when its
  velocity magnitude is below the threshold and sets it to 0 otherwise.
\<close>

theorem no_stall_stays_closing:
  assumes "state' s = CLOSING" and "stop_count' s = 0" and "\<not> has_stall_run 100 es"
  shows "(\<forall>k\<le>length es. state' (run (take k es) s) = CLOSING)
       \<and> state' (run es s) \<noteq> CALIBRATED
       \<and> stop_count' (tick e (run es s)) = (if stalled e then stop_count' (run es s) + 1 else 0)"
proof -
  have no: "\<not> has_stall_run 101 (take k es)" for k
  proof
    assume "has_stall_run 101 (take k es)"
    then have "has_stall_run 101 (take k es @ drop k es)" by (rule has_stall_run_append_right)
    then have "has_stall_run (Suc 100) es" by simp
    then have "has_stall_run 100 es" by (rule has_stall_run_Suc)
    with assms(3) show False by simp
  qed
  have pre: "state' (run (take k es) s) = CLOSING" for k
    using run_no_stall [OF assms(1,2) no [of k]] by simp
  have full: "state' (run es s) = CLOSING" using pre [of "length es"] by simp
  show ?thesis using pre full tick_closing_count [OF full, of e] by simp
qed

text \<open>C8 on the ticks stalled, moving, stalled, stalled, and one more moving tick.\<close>

theorem no_stall_stays_closing_witness:
  "state' closing_system = CLOSING \<and> stop_count' closing_system = 0
   \<and> \<not> has_stall_run 100 [stall_env, move_env, stall_env, stall_env]
   \<and> state' (run [stall_env, move_env, stall_env, stall_env] closing_system) = CLOSING
   \<and> stop_count' (run [stall_env, move_env, stall_env, stall_env] closing_system) = 2
   \<and> stop_count' (tick move_env (run [stall_env, move_env, stall_env, stall_env] closing_system)) = 0"
  using no_stall_stays_closing [of closing_system "[stall_env, move_env, stall_env, stall_env]" move_env]
  by (simp add: example_defs tick_defs stalled_def)

text \<open>
  C9: on a calibrated chain the tick ends without a fault, and every entry of the effort
  vector sent whose index is not the constraint's joint index is the Jacobian-transpose
  sum for that index, wherever the constrained joint stands relative to its limits.
\<close>

theorem constraint_frame:
  assumes "allCalibrated chain" and "well_sized chain s"
    and "i < length chain" and "int i \<noteq> joint (constraint' s)"
  shows "\<exists>s' eff. update_wrench sign J chain s = Inr (s', Some eff)
           \<and> eff ! i = (\<Sum>j<6. J (getPositions chain) j i * wrench_at (wrench_desi' s) j)"
proof -
  from project_ok [OF assms(2), of J] obtain t where
    pt: "project J chain s = Inr t" and tpos: "jnt_pos' t = getPositions chain"
    and tc: "constraint' t = constraint' s"
    and tl: "length (jnt_eff' t) = length chain"
    and tn: "\<forall>i<length chain.
               jnt_eff' t ! i = task_effort (J (getPositions chain)) (wrench_desi' s) i"
    by blast
  have tpl: "length (jnt_pos' t) = length chain" by (simp add: tpos getPositions_def)
  from constrain_ok [OF tpl tl, of sign] obtain u where cu: "constrain sign chain t = Inr u"
    and other: "\<forall>i. int i \<noteq> joint (constraint' t) \<longrightarrow> jnt_eff' u ! i = jnt_eff' t ! i"
    by blast
  have "jnt_eff' u ! i = jnt_eff' t ! i" using other assms(4) by (simp add: tc)
  then have "jnt_eff' u ! i
               = (\<Sum>j<6. J (getPositions chain) j i * wrench_at (wrench_desi' s) j)"
    using tn assms(3) by (simp add: task_effort_def)
  then show ?thesis
    using update_wrench_calibrated [OF assms(1) pt cu] by blast
qed

text \<open>C9 on the two-joint chain with joint 1 past its hard limit: entry 0 is 7.\<close>

theorem constraint_frame_witness:
  "allCalibrated (two_joints 1.6)
   \<and> well_sized (two_joints 1.6) (example_controller (spring_constraint 1) example_wrench [0, 0])
   \<and> int 0 \<noteq> joint (constraint' (example_controller (spring_constraint 1) example_wrench [0, 0]))
   \<and> sent (update_wrench kdl_sign (\<lambda>_. identity_jacobian) (two_joints 1.6)
        (example_controller (spring_constraint 1) example_wrench [0, 0])) = Inr (Some [7, - 6])
   \<and> [7, - 6 :: real] ! 0 = 7"
  using constraint_frame [of "two_joints 1.6"
          "example_controller (spring_constraint 1) example_wrench [0, 0]" 0 kdl_sign
          "\<lambda>_. identity_jacobian"]
  by (simp add: wrench_example_defs wrench_defs)

text \<open>
  C10: when the constraint's joint index is negative or at least the number of joints of
  the chain, the tick ends without a fault, that is, no entry outside the bounds of
  \<^verbatim>\<open>jnt_pos_\<close> or \<^verbatim>\<open>jnt_eff_\<close> is read or written; the constraint block changes
  nothing, and the vector sent is the Jacobian-transpose sum at every index of the chain.
\<close>

theorem invalid_constraint_ignored:
  assumes "allCalibrated chain" and "well_sized chain s"
    and "joint (constraint' s) < 0 \<or> int (length chain) \<le> joint (constraint' s)"
  shows "\<exists>t. project J chain s = Inr t \<and> constrain sign chain t = Inr t
       \<and> update_wrench sign J chain s = Inr (t, Some (jnt_eff' t))
       \<and> jnt_eff' t
           = map (\<lambda>i. \<Sum>j<6. J (getPositions chain) j i * wrench_at (wrench_desi' s) j)
               [0..<length chain]"
proof -
  from project_ok [OF assms(2), of J] obtain t where
    pt: "project J chain s = Inr t"
    and tc: "constraint' t = constraint' s"
    and tl: "length (jnt_eff' t) = length chain"
    and tn: "\<forall>i<length chain.
               jnt_eff' t ! i = task_effort (J (getPositions chain)) (wrench_desi' s) i"
    by blast
  have "joint (constraint' t) < 0 \<or> int (getNrOfJoints chain) \<le> joint (constraint' t)"
    using assms(3) by (simp add: tc getNrOfJoints_def)
  then have c: "constrain sign chain t = Inr t"
    by (rule constrain_invalid)
  have "jnt_eff' t
           = map (\<lambda>i. \<Sum>j<6. J (getPositions chain) j i * wrench_at (wrench_desi' s) j)
               [0..<length chain]"
    using tl tn by (intro nth_equalityI) (simp_all add: task_effort_def)
  then show ?thesis
    using pt c update_wrench_calibrated [OF assms(1) pt c] by blast
qed

text \<open>
  C10 on the two-joint chain with joint index 2, and with the default -1; at both indices
  the body of the constraint block, run without its range check, is a fault.
\<close>

theorem invalid_constraint_ignored_witness:
  "allCalibrated (two_joints 1.6)
   \<and> well_sized (two_joints 1.6) (example_controller (spring_constraint 2) example_wrench [0, 0])
   \<and> int (length (two_joints 1.6))
        \<le> joint (constraint' (example_controller (spring_constraint 2) example_wrench [0, 0]))
   \<and> sent (update_wrench kdl_sign (\<lambda>_. identity_jacobian) (two_joints 1.6)
        (example_controller (spring_constraint 2) example_wrench [0, 0])) = Inr (Some [7, 3])
   \<and> sent (update_wrench kdl_sign (\<lambda>_. identity_jacobian) (two_joints 1.6)
        (example_controller (spring_constraint (- 1)) example_wrench [0, 0])) = Inr (Some [7, 3])
   \<and> spring kdl_sign (example_controller (spring_constraint 2) example_wrench [0, 0])
        = Inl OutOfBounds
   \<and> spring kdl_sign (example_controller (spring_constraint (- 1)) example_wrench [0, 0])
        = Inl OutOfBounds"
  using invalid_constraint_ignored [of "two_joints 1.6"
          "example_controller (spring_constraint 2) example_wrench [0, 0]"
          "\<lambda>_. identity_jacobian" kdl_sign]
    invalid_constraint_ignored [of "two_joints 1.6"
          "example_controller (spring_constraint (- 1)) example_wrench [0, 0]"
          "\<lambda>_. identity_jacobian" kdl_sign]
  by (simp add: wrench_example_defs wrench_defs)

end
